theory Spec2Isabelle
  imports Main "HOL-Library.Word"
begin

section \<open>Strings and dates of the platform\<close>

text \<open>
  A JavaScript string is a sequence of UTF-16 code units. The draft and the stored rows
  carry arbitrary recognised speech, so they are modelled as code-unit lists; the fixed
  messages of \<^verbatim>\<open>alert\<close> and \<^verbatim>\<open>console.error\<close> are plain literals.
\<close>

type_synonym js_string = "16 word list"

definition utf16 :: "string \<Rightarrow> js_string" where
  "utf16 s = map of_char s"

text \<open>
  \<^verbatim>\<open>String.prototype.trim\<close> removes leading and trailing WhiteSpace and LineTerminator
  code points (ECMA-262): TAB, VT, FF, SP, NBSP, ZWNBSP, the other space separators, LF, CR, LS, PS.
\<close>

definition is_ws :: "16 word \<Rightarrow> bool" where
  "is_ws c = (c = 0x0009 \<or> c = 0x000A \<or> c = 0x000B \<or> c = 0x000C \<or> c = 0x000D \<or> c = 0x0020
     \<or> c = 0x00A0 \<or> c = 0x1680 \<or> (0x2000 \<le> c \<and> c \<le> 0x200A) \<or> c = 0x2028 \<or> c = 0x2029
     \<or> c = 0x202F \<or> c = 0x205F \<or> c = 0x3000 \<or> c = 0xFEFF)"

definition trim :: "js_string \<Rightarrow> js_string" where
  "trim s = rev (dropWhile is_ws (rev (dropWhile is_ws s)))"

text \<open>
  \<^verbatim>\<open>new Date()\<close> reads the clock; the value is represented by its UTC fields, named as the
  getters \<^verbatim>\<open>getUTCFullYear\<close>, \<^verbatim>\<open>getUTCMonth\<close> (0 to 11), \<^verbatim>\<open>getUTCDate\<close> and so on.
\<close>

record js_date =
  utcFullYear :: int
  utcMonth :: nat
  utcDate :: nat
  utcHours :: nat
  utcMinutes :: nat
  utcSeconds :: nat
  utcMilliseconds :: nat

text \<open>The ranges every time value of the platform has (years of the range of time values).\<close>

definition valid_date :: "js_date \<Rightarrow> bool" where
  "valid_date d = (- 271821 \<le> utcFullYear d \<and> utcFullYear d \<le> 275760 \<and> utcMonth d < 12
     \<and> 1 \<le> utcDate d \<and> utcDate d \<le> 31 \<and> utcHours d < 24 \<and> utcMinutes d < 60
     \<and> utcSeconds d < 60 \<and> utcMilliseconds d < 1000)"

definition digit :: "nat \<Rightarrow> 16 word" where
  "digit n = 0x30 + of_nat n"

fun pad :: "nat \<Rightarrow> nat \<Rightarrow> js_string" where
  "pad 0 n = []"
| "pad (Suc k) n = pad k (n div 10) @ [digit (n mod 10)]"

definition year_string :: "int \<Rightarrow> js_string" where
  "year_string y =
     (if 0 \<le> y \<and> y \<le> 9999 then pad 4 (nat y)
      else (if y < 0 then 0x2D else 0x2B) # pad 6 (nat \<bar>y\<bar>))"

text \<open>
  \<^verbatim>\<open>Date.prototype.toISOString\<close>, the platform's formatter (ECMA-262, Date Time String
  Format): \<^verbatim>\<open>YYYY-MM-DDTHH:mm:ss.sssZ\<close>, the year expanded to a sign and six digits outside
  0 to 9999.
\<close>

definition time_tail :: "js_date \<Rightarrow> js_string" where
  "time_tail d = [0x2D] @ pad 2 (utcMonth d + 1) @ [0x2D] @ pad 2 (utcDate d)
       @ [0x54] @ pad 2 (utcHours d) @ [0x3A] @ pad 2 (utcMinutes d) @ [0x3A] @ pad 2 (utcSeconds d)
       @ [0x2E] @ pad 3 (utcMilliseconds d) @ [0x5A]"

definition toISOString :: "js_date \<Rightarrow> js_string" where
  "toISOString d = year_string (utcFullYear d) @ time_tail d"

text \<open>A recogniser of that format, independent of the formatter.\<close>

definition is_digit :: "16 word \<Rightarrow> bool" where
  "is_digit c = (0x30 \<le> c \<and> c \<le> 0x39)"

definition two_digits :: "16 word \<Rightarrow> 16 word \<Rightarrow> nat" where
  "two_digits a b = 10 * (unat a - 48) + (unat b - 48)"

definition iso_time_tail :: "js_string \<Rightarrow> bool" where
  "iso_time_tail s =
     (length s = 20 \<and> s ! 0 = 0x2D \<and> is_digit (s ! 1) \<and> is_digit (s ! 2)
      \<and> 1 \<le> two_digits (s ! 1) (s ! 2) \<and> two_digits (s ! 1) (s ! 2) \<le> 12
      \<and> s ! 3 = 0x2D \<and> is_digit (s ! 4) \<and> is_digit (s ! 5)
      \<and> 1 \<le> two_digits (s ! 4) (s ! 5) \<and> two_digits (s ! 4) (s ! 5) \<le> 31
      \<and> s ! 6 = 0x54 \<and> is_digit (s ! 7) \<and> is_digit (s ! 8) \<and> two_digits (s ! 7) (s ! 8) \<le> 23
      \<and> s ! 9 = 0x3A \<and> is_digit (s ! 10) \<and> is_digit (s ! 11) \<and> two_digits (s ! 10) (s ! 11) \<le> 59
      \<and> s ! 12 = 0x3A \<and> is_digit (s ! 13) \<and> is_digit (s ! 14) \<and> two_digits (s ! 13) (s ! 14) \<le> 59
      \<and> s ! 15 = 0x2E \<and> is_digit (s ! 16) \<and> is_digit (s ! 17) \<and> is_digit (s ! 18)
      \<and> s ! 19 = 0x5A)"

definition iso8601_utc :: "js_string \<Rightarrow> bool" where
  "iso8601_utc s =
     (case s of
        [] \<Rightarrow> False
      | c # cs \<Rightarrow>
          if c = 0x2B \<or> c = 0x2D
          then list_all is_digit (take 6 cs) \<and> iso_time_tail (drop 6 cs)
          else list_all is_digit (take 4 s) \<and> iso_time_tail (drop 4 s))"

section \<open>The page's data and state\<close>

text \<open>
  The interface \<^verbatim>\<open>Transcription\<close>. \<^verbatim>\<open>id: number\<close> is an IEEE double; \<open>id_t\<close> is the
  value of that number, an integer here. The store's keys are 64-bit (\<^verbatim>\<open>BIGSERIAL\<close>) and reach
  the page through the client's JSON parsing, which rounds a key to the nearest double, ties to
  the even significand: below \<open>2\<^sup>5\<^sup>3\<close> every integer is its own double, above it several keys
  share one.
\<close>

record Transcription =
  id_t :: int
  text_t :: js_string
  created_at :: js_string

fun bitlen :: "nat \<Rightarrow> nat" where
  "bitlen n = (if n = 0 then 0 else Suc (bitlen (n div 2)))"

definition round53 :: "nat \<Rightarrow> nat" where
  "round53 n =
     (let u = 2 ^ (bitlen n - 53); q = n div u; r = n mod u
      in if u < 2 * r \<or> (2 * r = u \<and> odd q) then (q + 1) * u else q * u)"

definition to_number :: "int \<Rightarrow> int" where
  "to_number k =
     (if \<bar>k\<bar> < 2 ^ 53 then k
      else if k < 0 then - int (round53 (nat \<bar>k\<bar>)) else int (round53 (nat k)))"

text \<open>A row as the store holds it, and the object the client makes of it.\<close>

record stored_row =
  key :: int
  body :: js_string
  stamp :: js_string

definition parse_row :: "stored_row \<Rightarrow> Transcription" where
  "parse_row s = \<lparr>id_t = to_number (key s), text_t = body s, created_at = stamp s\<rparr>"

text \<open>The recognition instance built at mount, with the handlers and the session it holds.\<close>

record SpeechRecognition =
  continuous :: bool
  interimResults :: bool
  onresult :: bool
  onerror :: bool
  started :: bool

text \<open>The browser's globals the mount effect looks at: which constructors exist.\<close>

record window =
  has_SpeechRecognition :: bool
  has_webkitSpeechRecognition :: bool

text \<open>Requests to the store (all against the table \<^verbatim>\<open>transcriptions\<close>) and what is observable.\<close>

datatype request =
    CountProbe
  | InsertRow js_string js_string
  | SelectAll
  | DeleteRow int

datatype effect =
    Issued request
  | Alert string
  | ConsoleError string
  | GetUserMedia
  | RecognitionStart
  | RecognitionStop

text \<open>
  The component's state (the six \<^verbatim>\<open>useState\<close> cells) and the log of effects, oldest first.
\<close>

record page =
  isRecording :: bool
  transcription :: js_string
  savedTranscriptions :: "Transcription list"
  isLoading :: bool
  showDeleteConfirm :: "int option"
  recognition :: "SpeechRecognition option"
  effects :: "effect list"

definition initial :: page where
  "initial = \<lparr>isRecording = False, transcription = [], savedTranscriptions = [],
     isLoading = False, showDeleteConfirm = None, recognition = None, effects = []\<rparr>"

definition emit :: "effect \<Rightarrow> page \<Rightarrow> page" where
  "emit e p = p\<lparr>effects := effects p @ [e]\<rparr>"

text \<open>
  What an awaited promise settles to: a rejection (the \<^verbatim>\<open>await\<close> throws) or the store
  client's \<^verbatim>\<open>{ data, error }\<close>. For the permission request only the distinction matters.
\<close>

record reply =
  data :: "Transcription list option"
  error :: "string option"

datatype response = Rejected | Fulfilled reply

text \<open>
  A handler suspended at an \<^verbatim>\<open>await\<close>: the program point, with what its closure captured.
\<close>

datatype task =
    StartAwaitMedia
  | StopAwaitProbe js_string
  | StopAwaitInsert
  | LoadAwaitProbe
  | LoadAwaitSelect
  | DeleteAwait

section \<open>The handlers\<close>

text \<open>
  Each handler runs to its first \<^verbatim>\<open>await\<close> and returns the new page with the tasks now
  suspended; \<open>resume\<close> runs a suspended task from the settled promise to its next
  \<^verbatim>\<open>await\<close> or its end. A request counts as issued where it is awaited.
\<close>

definition mount_recognition :: "window option \<Rightarrow> page \<Rightarrow> page" where
  "mount_recognition win p =
     (case win of
        None \<Rightarrow> p
      | Some g \<Rightarrow>
          if has_SpeechRecognition g \<or> has_webkitSpeechRecognition g
          then p\<lparr>recognition := Some \<lparr>continuous = True, interimResults = True,
                 onresult = False, onerror = False, started = False\<rparr>\<rparr>
          else p)"

definition loadSavedTranscriptions :: "page \<Rightarrow> page \<times> task list" where
  "loadSavedTranscriptions p = (emit (Issued CountProbe) (p\<lparr>isLoading := True\<rparr>), [LoadAwaitProbe])"

definition mount :: "window option \<Rightarrow> page \<times> task list" where
  "mount win = loadSavedTranscriptions (mount_recognition win initial)"

definition startRecording :: "page \<Rightarrow> page \<times> task list" where
  "startRecording p =
     (case recognition p of
        None \<Rightarrow> (p, [])
      | Some r \<Rightarrow> (emit GetUserMedia (p\<lparr>isLoading := True\<rparr>), [StartAwaitMedia]))"

text \<open>
  \<^verbatim>\<open>if (recognition) recognition.stop()\<close>. The Web Speech API gives \<^verbatim>\<open>stop()\<close> no
  exception (a call on a stopped recogniser is ignored); \<^verbatim>\<open>start()\<close> on a started one throws.
\<close>

definition recognition_stop :: "page \<Rightarrow> page" where
  "recognition_stop p =
     (case recognition p of
        None \<Rightarrow> p
      | Some r \<Rightarrow> emit RecognitionStop (p\<lparr>recognition := Some (r\<lparr>started := False\<rparr>)\<rparr>))"

definition stopRecording :: "page \<Rightarrow> page \<times> task list" where
  "stopRecording p =
     (let q = recognition_stop p in
      if trim (transcription p) = [] then (q\<lparr>isRecording := False\<rparr>, [])
      else (emit (Issued CountProbe) (q\<lparr>isLoading := True\<rparr>), [StopAwaitProbe (transcription p)]))"

definition deleteTranscription :: "int \<Rightarrow> page \<Rightarrow> page \<times> task list" where
  "deleteTranscription i p = (emit (Issued (DeleteRow i)) (p\<lparr>isLoading := True\<rparr>), [DeleteAwait])"

text \<open>The \<^verbatim>\<open>catch\<close> and \<^verbatim>\<open>finally\<close> blocks.\<close>

definition start_catch :: "page \<Rightarrow> page" where
  "start_catch p =
     (emit (Alert ''Unable to access microphone. Please ensure microphone permissions are granted and try again.'')
        (emit (ConsoleError ''Error accessing microphone:'') p))\<lparr>isRecording := False\<rparr>"

definition start_finally :: "page \<Rightarrow> page" where
  "start_finally p = p\<lparr>isLoading := False\<rparr>"

definition stop_catch :: "page \<Rightarrow> page" where
  "stop_catch p =
     emit (Alert ''An unexpected error occurred. Please try again.'')
       (emit (ConsoleError ''Unexpected error in stopRecording:'') p)"

definition stop_finally :: "page \<Rightarrow> page" where
  "stop_finally p = p\<lparr>isLoading := False, isRecording := False, transcription := []\<rparr>"

definition load_catch :: "page \<Rightarrow> page" where
  "load_catch p = emit (ConsoleError ''Unexpected error in loadSavedTranscriptions:'') p"

definition load_finally :: "page \<Rightarrow> page" where
  "load_finally p = p\<lparr>isLoading := False\<rparr>"

definition delete_catch :: "page \<Rightarrow> page" where
  "delete_catch p =
     emit (Alert ''An unexpected error occurred. Please try again.'')
       (emit (ConsoleError ''Unexpected error in deleteTranscription:'') p)"

definition delete_finally :: "page \<Rightarrow> page" where
  "delete_finally p = p\<lparr>isLoading := False, showDeleteConfirm := None\<rparr>"

fun resume :: "task \<Rightarrow> js_date \<Rightarrow> response \<Rightarrow> page \<Rightarrow> page \<times> task list" where
  "resume StartAwaitMedia now r p =
     (case r of
        Rejected \<Rightarrow> (start_finally (start_catch p), [])
      | Fulfilled _ \<Rightarrow>
          (case recognition p of
             None \<Rightarrow> (start_finally (start_catch p), [])
           | Some g \<Rightarrow>
               let h = g\<lparr>onresult := True, onerror := True\<rparr> in
               if started h
               then (start_finally (start_catch (p\<lparr>recognition := Some h\<rparr>)), [])
               else (start_finally
                       ((emit RecognitionStart (p\<lparr>recognition := Some (h\<lparr>started := True\<rparr>)\<rparr>))
                          \<lparr>isRecording := True\<rparr>), [])))"
| "resume (StopAwaitProbe draft) now r p =
     (case r of
        Rejected \<Rightarrow> (stop_finally (stop_catch p), [])
      | Fulfilled res \<Rightarrow>
          (case error res of
             Some connectionError \<Rightarrow>
               (stop_finally
                  ((emit (Alert ''Failed to connect to the database. Please check your connection and try again.'')
                      (emit (ConsoleError ''Supabase connection error:'') p))\<lparr>isRecording := False\<rparr>), [])
           | None \<Rightarrow> (emit (Issued (InsertRow draft (toISOString now))) p, [StopAwaitInsert])))"
| "resume StopAwaitInsert now r p =
     (case r of
        Rejected \<Rightarrow> (stop_finally (stop_catch p), [])
      | Fulfilled res \<Rightarrow>
          (case error res of
             Some e \<Rightarrow>
               (stop_finally
                  (emit (Alert ''Failed to save transcription. Please try again.'')
                     (emit (ConsoleError ''Error saving transcription:'') p)), [])
           | None \<Rightarrow>
               (let (q, spawned) = loadSavedTranscriptions p in (stop_finally q, spawned))))"
| "resume LoadAwaitProbe now r p =
     (case r of
        Rejected \<Rightarrow> (load_finally (load_catch p), [])
      | Fulfilled res \<Rightarrow>
          (case error res of
             Some connectionError \<Rightarrow>
               (load_finally (emit (ConsoleError ''Supabase connection error:'') p), [])
           | None \<Rightarrow> (emit (Issued SelectAll) p, [LoadAwaitSelect])))"
| "resume LoadAwaitSelect now r p =
     (case r of
        Rejected \<Rightarrow> (load_finally (load_catch p), [])
      | Fulfilled res \<Rightarrow>
          (case error res of
             Some e \<Rightarrow> (load_finally (emit (ConsoleError ''Error loading transcriptions:'') p), [])
           | None \<Rightarrow>
               (load_finally
                  (p\<lparr>savedTranscriptions := (case data res of None \<Rightarrow> [] | Some rows \<Rightarrow> rows)\<rparr>), [])))"
| "resume DeleteAwait now r p =
     (case r of
        Rejected \<Rightarrow> (delete_finally (delete_catch p), [])
      | Fulfilled res \<Rightarrow>
          (case error res of
             Some e \<Rightarrow>
               (delete_finally
                  (emit (Alert ''Failed to delete transcription. Please try again.'')
                     (emit (ConsoleError ''Error deleting transcription:'') p)), [])
           | None \<Rightarrow>
               (let (q, spawned) = loadSavedTranscriptions p in (delete_finally q, spawned))))"

text \<open>The handlers attached to the recogniser by \<^verbatim>\<open>startRecording\<close>.\<close>

definition on_result :: "js_string list \<Rightarrow> page \<Rightarrow> page" where
  "on_result results p = p\<lparr>transcription := concat results\<rparr>"

definition on_error :: "string \<Rightarrow> page \<Rightarrow> page" where
  "on_error code p =
     (let q = emit (ConsoleError ''Speech recognition error:'') p;
          q' = (if code = ''not-allowed''
                then emit (Alert ''Microphone access is required for speech recognition. Please allow microphone access and try again.'') q
                else q)
      in q'\<lparr>isRecording := False, isLoading := False\<rparr>)"

section \<open>Running the page\<close>

text \<open>
  An operation run alone: the promises of the suspended tasks settle one after another, oldest
  first, each with the clock's value at that moment, until the script or the tasks run out.
\<close>

fun drain :: "(js_date \<times> response) list \<Rightarrow> page \<times> task list \<Rightarrow> page \<times> task list" where
  "drain [] a = a"
| "drain (x # xs) (p, []) = (p, [])"
| "drain ((now, r) # xs) (p, t # ts) = (let (q, spawned) = resume t now r p in drain xs (q, ts @ spawned))"

text \<open>
  The page in its environment. The user clicks a control that is rendered and not disabled; a
  pending promise settles (any of them: the network decides the order); the recogniser fires a
  handler that is attached. The rows are rendered from \<^verbatim>\<open>savedTranscriptions\<close>; a row shows
  Confirm and Cancel when \<^verbatim>\<open>showDeleteConfirm === item.id\<close> and the delete button otherwise.
  The record button and Confirm are \<^verbatim>\<open>disabled={isLoading}\<close>; Cancel and the delete button are
  not. An error of the recogniser ends its session.
\<close>

datatype event =
    ClickRecord
  | ClickDelete int
  | ClickConfirm int
  | ClickCancel int
  | Settle nat js_date response
  | SpeechResult "js_string list"
  | SpeechError string

definition row_shown :: "int \<Rightarrow> page \<Rightarrow> bool" where
  "row_shown i p = (i \<in> set (map id_t (savedTranscriptions p)))"

fun step :: "event \<Rightarrow> page \<times> task list \<Rightarrow> (page \<times> task list) option" where
  "step ClickRecord (p, ts) =
     (if isLoading p then None
      else let (q, spawned) = (if isRecording p then stopRecording p else startRecording p)
           in Some (q, ts @ spawned))"
| "step (ClickDelete i) (p, ts) =
     (if row_shown i p \<and> showDeleteConfirm p \<noteq> Some i
      then Some (p\<lparr>showDeleteConfirm := Some i\<rparr>, ts) else None)"
| "step (ClickConfirm i) (p, ts) =
     (if row_shown i p \<and> showDeleteConfirm p = Some i \<and> \<not> isLoading p
      then let (q, spawned) = deleteTranscription i p in Some (q, ts @ spawned) else None)"
| "step (ClickCancel i) (p, ts) =
     (if row_shown i p \<and> showDeleteConfirm p = Some i
      then Some (p\<lparr>showDeleteConfirm := None\<rparr>, ts) else None)"
| "step (Settle k now r) (p, ts) =
     (if k < length ts
      then let (q, spawned) = resume (ts ! k) now r p in Some (q, take k ts @ drop (Suc k) ts @ spawned)
      else None)"
| "step (SpeechResult results) (p, ts) =
     (case recognition p of
        None \<Rightarrow> None
      | Some g \<Rightarrow> if onresult g then Some (on_result results p, ts) else None)"
| "step (SpeechError code) (p, ts) =
     (case recognition p of
        None \<Rightarrow> None
      | Some g \<Rightarrow>
          if onerror g then Some (on_error code (p\<lparr>recognition := Some (g\<lparr>started := False\<rparr>)\<rparr>), ts)
          else None)"

fun run :: "event list \<Rightarrow> page \<times> task list \<Rightarrow> (page \<times> task list) option" where
  "run [] a = Some a"
| "run (e # es) a = (case step e a of None \<Rightarrow> None | Some b \<Rightarrow> run es b)"

subsection \<open>Observations\<close>

definition issued :: "page \<Rightarrow> request list" where
  "issued p = concat (map (\<lambda>e. case e of Issued q \<Rightarrow> [q] | _ \<Rightarrow> []) (effects p))"

definition alerts :: "page \<Rightarrow> string list" where
  "alerts p = concat (map (\<lambda>e. case e of Alert m \<Rightarrow> [m] | _ \<Rightarrow> []) (effects p))"

definition is_insert :: "request \<Rightarrow> bool" where
  "is_insert q = (case q of InsertRow t c \<Rightarrow> True | _ \<Rightarrow> False)"

definition is_network :: "task \<Rightarrow> bool" where
  "is_network t = (t \<noteq> StartAwaitMedia)"

definition in_flight :: "page \<times> task list \<Rightarrow> nat" where
  "in_flight a = length (filter is_network (snd a))"

definition armed_rows :: "page \<Rightarrow> Transcription list" where
  "armed_rows p = filter (\<lambda>item. showDeleteConfirm p = Some (id_t item)) (savedTranscriptions p)"

text \<open>
  The rows of a reply have pairwise distinct ids as the page holds them, that is as numbers.
  The table's \<^verbatim>\<open>id BIGSERIAL PRIMARY KEY\<close> gives distinct keys; they stay distinct as numbers
  when they are below \<open>2\<^sup>5\<^sup>3\<close>, and need not above.
\<close>

definition keyed :: "event \<Rightarrow> bool" where
  "keyed e =
     (case e of
        Settle k now (Fulfilled res) \<Rightarrow>
          (case data res of None \<Rightarrow> True | Some rows \<Rightarrow> distinct (map (\<lambda>item. to_number (id_t item)) rows))
      | _ \<Rightarrow> True)"

definition safe_keys :: "stored_row list \<Rightarrow> bool" where
  "safe_keys rows = (distinct (map key rows) \<and> list_all (\<lambda>s. \<bar>key s\<bar> < 2 ^ 53) rows)"

definition ok :: "Transcription list option \<Rightarrow> response" where
  "ok rows = Fulfilled \<lparr>data = rows, error = None\<rparr>"

definition failed :: "string \<Rightarrow> response" where
  "failed msg = Fulfilled \<lparr>data = None, error = Some msg\<rparr>"

text \<open>Inputs of the examples.\<close>

definition example_date :: js_date where
  "example_date = \<lparr>utcFullYear = 2026, utcMonth = 10, utcDate = 1, utcHours = 23, utcMinutes = 5,
     utcSeconds = 9, utcMilliseconds = 42\<rparr>"

definition hello_page :: page where
  "hello_page = initial\<lparr>isRecording := True, transcription := utf16 ''hello world''\<rparr>"

definition blank_page :: page where
  "blank_page = initial\<lparr>isRecording := True, transcription := utf16 '' ''\<rparr>"

definition row7 :: Transcription where
  "row7 = \<lparr>id_t = 7, text_t = utf16 ''first note'', created_at = utf16 ''2026-10-31T08:00:00.000Z''\<rparr>"

definition row8 :: Transcription where
  "row8 = \<lparr>id_t = 8, text_t = utf16 ''second note'', created_at = utf16 ''2026-10-30T08:00:00.000Z''\<rparr>"

definition listed_page :: page where
  "listed_page = hello_page\<lparr>savedTranscriptions := [row7, row8], showDeleteConfirm := Some 7\<rparr>"

definition no_speech :: window where
  "no_speech = \<lparr>has_SpeechRecognition = False, has_webkitSpeechRecognition = False\<rparr>"

definition chrome :: window where
  "chrome = \<lparr>has_SpeechRecognition = False, has_webkitSpeechRecognition = True\<rparr>"

text \<open>The page once the mount's load has brought rows 7 and 8, and the events that lead there.\<close>

definition loaded_page :: page where
  "loaded_page = \<lparr>isRecording = False, transcription = [], savedTranscriptions = [row7, row8],
     isLoading = False, showDeleteConfirm = None,
     recognition = Some \<lparr>continuous = True, interimResults = True, onresult = False, onerror = False,
       started = False\<rparr>,
     effects = [Issued CountProbe, Issued SelectAll]\<rparr>"

definition first_load :: "event list" where
  "first_load = [Settle 0 example_date (ok None), Settle 0 example_date (ok (Some [row7, row8]))]"

text \<open>Two rows of the store whose keys differ and are one number in the page.\<close>

definition big_row_a :: stored_row where
  "big_row_a = \<lparr>key = 9007199254740993, body = utf16 ''first note'', stamp = utf16 ''2026-10-31T08:00:00.000Z''\<rparr>"

definition big_row_b :: stored_row where
  "big_row_b = \<lparr>key = 9007199254740992, body = utf16 ''second note'', stamp = utf16 ''2026-10-30T08:00:00.000Z''\<rparr>"

definition is_failure :: "response \<Rightarrow> bool" where
  "is_failure r = (case r of Rejected \<Rightarrow> True | Fulfilled res \<Rightarrow> error res \<noteq> None)"

text \<open>The tasks of a list reload.\<close>

definition load_only :: "task list \<Rightarrow> bool" where
  "load_only ts = list_all (\<lambda>t. t = LoadAwaitProbe \<or> t = LoadAwaitSelect) ts"

section \<open>Basic facts\<close>

lemmas handler_defs = loadSavedTranscriptions_def startRecording_def stopRecording_def
  deleteTranscription_def recognition_stop_def emit_def start_catch_def start_finally_def
  stop_catch_def stop_finally_def load_catch_def load_finally_def delete_catch_def
  delete_finally_def

text \<open>The guard \<^verbatim>\<open>!transcription.trim()\<close> holds exactly for the drafts made of white space only.\<close>

lemma trim_empty_iff: "trim s = [] \<longleftrightarrow> list_all is_ws s"
proof
  assume "trim s = []"
  then have "dropWhile is_ws (rev (dropWhile is_ws s)) = []"
    by (simp add: trim_def)
  then have all: "\<forall>c \<in> set (dropWhile is_ws s). is_ws c"
    by simp
  have "dropWhile is_ws s = []"
  proof (rule ccontr)
    assume ne: "dropWhile is_ws s \<noteq> []"
    then have "\<not> is_ws (hd (dropWhile is_ws s))"
      by (rule hd_dropWhile)
    moreover from ne have "hd (dropWhile is_ws s) \<in> set (dropWhile is_ws s)"
      by simp
    ultimately show False using all by blast
  qed
  then show "list_all is_ws s"
    by (simp add: list_all_iff)
next
  assume "list_all is_ws s"
  then show "trim s = []"
    by (auto simp: trim_def list_all_iff dest: set_dropWhileD)
qed

text \<open>The formatter's output is in the format it promises, for every date of the platform.\<close>

lemma unat_digit: "n < 10 \<Longrightarrow> unat (digit n) = 48 + n"
  by (simp add: digit_def unat_word_ariths unat_of_nat)

lemma is_digit_digit: "n < 10 \<Longrightarrow> is_digit (digit n)"
  by (simp add: is_digit_def word_le_nat_alt unat_digit)

lemma length_pad: "length (pad k n) = k"
  by (induction k arbitrary: n) simp_all

lemma pad_digits: "list_all is_digit (pad k n)"
  by (induction k arbitrary: n) (simp_all add: is_digit_digit)

lemma pad2: "pad 2 n = [digit (n div 10 mod 10), digit (n mod 10)]"
  by (simp add: numeral_2_eq_2)

lemma pad3: "pad 3 n = [digit (n div 10 div 10 mod 10), digit (n div 10 mod 10), digit (n mod 10)]"
  by (simp add: numeral_3_eq_3)

lemma pad2_ok: "n < 100 \<Longrightarrow> lo \<le> n \<Longrightarrow> n \<le> hi \<Longrightarrow>
  pad 2 n = [a, b] \<Longrightarrow> is_digit a \<and> is_digit b \<and> lo \<le> two_digits a b \<and> two_digits a b \<le> hi"
  by (auto simp: pad2 is_digit_digit two_digits_def unat_digit)

lemma iso_tail:
  assumes v: "valid_date d"
  shows "iso_time_tail (time_tail d)"
proof -
  obtain m1 m2 where m: "pad 2 (utcMonth d + 1) = [m1, m2]" by (simp add: pad2)
  obtain d1 d2 where dd: "pad 2 (utcDate d) = [d1, d2]" by (simp add: pad2)
  obtain h1 h2 where h: "pad 2 (utcHours d) = [h1, h2]" by (simp add: pad2)
  obtain n1 n2 where n: "pad 2 (utcMinutes d) = [n1, n2]" by (simp add: pad2)
  obtain s1 s2 where s: "pad 2 (utcSeconds d) = [s1, s2]" by (simp add: pad2)
  obtain f1 f2 f3 where f: "pad 3 (utcMilliseconds d) = [f1, f2, f3]" by (simp add: pad3)
  from v have "is_digit m1 \<and> is_digit m2 \<and> 1 \<le> two_digits m1 m2 \<and> two_digits m1 m2 \<le> 12"
    by (intro pad2_ok [OF _ _ _ m]) (simp_all add: valid_date_def)
  moreover from v have "is_digit d1 \<and> is_digit d2 \<and> 1 \<le> two_digits d1 d2 \<and> two_digits d1 d2 \<le> 31"
    by (intro pad2_ok [OF _ _ _ dd]) (simp_all add: valid_date_def)
  moreover from v have "is_digit h1 \<and> is_digit h2 \<and> 0 \<le> two_digits h1 h2 \<and> two_digits h1 h2 \<le> 23"
    by (intro pad2_ok [OF _ _ _ h]) (simp_all add: valid_date_def)
  moreover from v have "is_digit n1 \<and> is_digit n2 \<and> 0 \<le> two_digits n1 n2 \<and> two_digits n1 n2 \<le> 59"
    by (intro pad2_ok [OF _ _ _ n]) (simp_all add: valid_date_def)
  moreover from v have "is_digit s1 \<and> is_digit s2 \<and> 0 \<le> two_digits s1 s2 \<and> two_digits s1 s2 \<le> 59"
    by (intro pad2_ok [OF _ _ _ s]) (simp_all add: valid_date_def)
  moreover have "is_digit f1 \<and> is_digit f2 \<and> is_digit f3"
    using pad_digits [of 3 "utcMilliseconds d"] by (simp add: f)
  ultimately show ?thesis
    unfolding time_tail_def m dd h n s f by (simp add: iso_time_tail_def)
qed




lemma toISOString_split: "toISOString d = year_string (utcFullYear d) @ time_tail d"
  by (simp add: toISOString_def)

lemma is_digit_not_sign: "is_digit c \<Longrightarrow> c \<noteq> 0x2B \<and> c \<noteq> 0x2D"
  by (auto simp: is_digit_def)

lemma toISOString_wellformed:
  assumes v: "valid_date d"
  shows "iso8601_utc (toISOString d)"
proof (cases "0 \<le> utcFullYear d \<and> utcFullYear d \<le> 9999")
  case True
  let ?y = "nat (utcFullYear d)"
  obtain c cs where p4: "pad 4 ?y = c # cs"
    using length_pad [of 4 ?y] by (cases "pad 4 ?y") simp_all
  have "is_digit c" using pad_digits [of 4 ?y] by (simp add: p4)
  then have c: "c \<noteq> 0x2B \<and> c \<noteq> 0x2D" by (rule is_digit_not_sign)
  have ys: "year_string (utcFullYear d) = pad 4 ?y"
    using True by (simp add: year_string_def)
  have t: "take 4 (pad 4 ?y @ time_tail d) = pad 4 ?y"
    by (simp add: length_pad)
  have dr: "drop 4 (pad 4 ?y @ time_tail d) = time_tail d"
    by (simp add: length_pad)
  have "iso8601_utc (pad 4 ?y @ time_tail d)"
    unfolding iso8601_utc_def t dr using c iso_tail [OF v] pad_digits [of 4 ?y]
    by (simp add: p4)
  then show ?thesis by (simp only: toISOString_split ys)
next
  case False
  let ?a = "nat \<bar>utcFullYear d\<bar>"
  let ?s = "if utcFullYear d < 0 then 0x2D else 0x2B :: 16 word"
  have "year_string (utcFullYear d) = ?s # pad 6 ?a"
    unfolding year_string_def by (simp only: False if_False)
  then have eq: "toISOString d = ?s # (pad 6 ?a @ time_tail d)"
    by (simp only: toISOString_split append_Cons)
  have t: "take 6 (pad 6 ?a @ time_tail d) = pad 6 ?a"
    by (simp add: length_pad)
  have dr: "drop 6 (pad 6 ?a @ time_tail d) = time_tail d"
    by (simp add: length_pad)
  have "iso8601_utc (?s # (pad 6 ?a @ time_tail d))"
    unfolding iso8601_utc_def list.case t dr using iso_tail [OF v] pad_digits [of 6 ?a]
    by simp
  then show ?thesis by (simp only: eq)
qed

text \<open>A reload touches neither the draft, the recording flag nor the confirmation gate, and inserts nothing.\<close>

lemma resume_load_frame:
  assumes "t = LoadAwaitProbe \<or> t = LoadAwaitSelect" and "resume t now r p = (q, ts)"
  shows "load_only ts \<and> transcription q = transcription p \<and> showDeleteConfirm q = showDeleteConfirm p
    \<and> isRecording q = isRecording p \<and> filter is_insert (issued q) = filter is_insert (issued p)
    \<and> alerts q = alerts p"
  using assms
  by (auto simp: load_only_def handler_defs issued_def alerts_def is_insert_def
      split: response.splits option.splits)

lemma drain_load_frame:
  assumes "load_only ts" and "drain xs (p, ts) = (q, us)"
  shows "transcription q = transcription p \<and> showDeleteConfirm q = showDeleteConfirm p
    \<and> isRecording q = isRecording p \<and> filter is_insert (issued q) = filter is_insert (issued p)
    \<and> alerts q = alerts p"
  using assms
proof (induction xs "(p, ts)" arbitrary: p ts rule: drain.induct)
  case 1
  then show ?case by simp
next
  case (2 x xs p)
  then show ?case by simp
next
  case (3 now r xs p t ts)
  obtain p' sp where res: "resume t now r p = (p', sp)" by (cases "resume t now r p")
  from 3(2) have t: "t = LoadAwaitProbe \<or> t = LoadAwaitSelect" and ts: "load_only ts"
    by (simp_all add: load_only_def)
  from resume_load_frame [OF t res] have fr: "load_only sp" "transcription p' = transcription p"
    "showDeleteConfirm p' = showDeleteConfirm p" "isRecording p' = isRecording p"
    "filter is_insert (issued p') = filter is_insert (issued p)" "alerts p' = alerts p"
    by simp_all
  have lo: "load_only (ts @ sp)" using ts fr(1) by (simp add: load_only_def)
  from 3(3) res have dr: "drain xs (p', ts @ sp) = (q, us)" by simp
  from 3(1) [OF res [symmetric] refl lo dr] fr show ?case by simp
qed

lemma drain_done: "drain xs (p, []) = (p, [])"
  by (cases xs) auto

lemma stop_nonblank:
  "trim (transcription p) \<noteq> [] \<Longrightarrow>
   stopRecording p =
     (emit (Issued CountProbe) ((recognition_stop p)\<lparr>isLoading := True\<rparr>), [StopAwaitProbe (transcription p)])"
  by (simp add: stopRecording_def Let_def)

lemma recognition_stop_frame:
  "issued (recognition_stop p) = issued p \<and> alerts (recognition_stop p) = alerts p
   \<and> savedTranscriptions (recognition_stop p) = savedTranscriptions p
   \<and> transcription (recognition_stop p) = transcription p"
  by (simp add: recognition_stop_def emit_def issued_def alerts_def split: option.splits)

lemma issued_emit [simp]:
  "issued (emit e p) = issued p @ (case e of Issued q \<Rightarrow> [q] | _ \<Rightarrow> [])"
  by (simp add: issued_def emit_def)

lemma alerts_emit [simp]:
  "alerts (emit e p) = alerts p @ (case e of Alert m \<Rightarrow> [m] | _ \<Rightarrow> [])"
  by (simp add: alerts_def emit_def)

lemma issued_update [simp]:
  "issued (p\<lparr>isLoading := b\<rparr>) = issued p" "issued (p\<lparr>isRecording := b\<rparr>) = issued p"
  "issued (p\<lparr>transcription := s\<rparr>) = issued p" "issued (p\<lparr>showDeleteConfirm := c\<rparr>) = issued p"
  "issued (p\<lparr>savedTranscriptions := rows\<rparr>) = issued p" "issued (p\<lparr>recognition := g\<rparr>) = issued p"
  by (simp_all add: issued_def)

lemma alerts_update [simp]:
  "alerts (p\<lparr>isLoading := b\<rparr>) = alerts p" "alerts (p\<lparr>isRecording := b\<rparr>) = alerts p"
  "alerts (p\<lparr>transcription := s\<rparr>) = alerts p" "alerts (p\<lparr>showDeleteConfirm := c\<rparr>) = alerts p"
  "alerts (p\<lparr>savedTranscriptions := rows\<rparr>) = alerts p" "alerts (p\<lparr>recognition := g\<rparr>) = alerts p"
  by (simp_all add: alerts_def)

lemma emit_fields [simp]:
  "isRecording (emit e p) = isRecording p" "transcription (emit e p) = transcription p"
  "savedTranscriptions (emit e p) = savedTranscriptions p" "isLoading (emit e p) = isLoading p"
  "showDeleteConfirm (emit e p) = showDeleteConfirm p" "recognition (emit e p) = recognition p"
  "effects (emit e p) = effects p @ [e]"
  by (simp_all add: emit_def)

lemmas block_defs = start_catch_def start_finally_def stop_catch_def stop_finally_def
  load_catch_def load_finally_def delete_catch_def delete_finally_def

text \<open>The stop handler after the probe's reply, in the three cases.\<close>

lemma stop_probe_failed:
  assumes "trim (transcription p) \<noteq> []" and "is_failure r"
  shows "\<exists>q. drain ((now, r) # rest) (stopRecording p) = (q, [])
    \<and> issued q = issued p @ [CountProbe] \<and> transcription q = []
    \<and> savedTranscriptions q = savedTranscriptions p
    \<and> alerts q = alerts p @ [case r of Rejected \<Rightarrow> ''An unexpected error occurred. Please try again.''
         | Fulfilled res \<Rightarrow> ''Failed to connect to the database. Please check your connection and try again.'']"
  using assms
  by (auto simp: stop_nonblank is_failure_def block_defs drain_done recognition_stop_frame
      split: response.splits option.splits)

lemma stop_probe_ok:
  assumes "trim (transcription p) \<noteq> []" and "error probe = None"
  shows "\<exists>q. drain [(now, Fulfilled probe)] (stopRecording p) = (q, [StopAwaitInsert])
    \<and> issued q = issued p @ [CountProbe, InsertRow (transcription p) (toISOString now)]
    \<and> savedTranscriptions q = savedTranscriptions p \<and> alerts q = alerts p"
  using assms
  by (auto simp: stop_nonblank recognition_stop_frame)

lemma drain_append: "drain (xs @ ys) a = drain ys (drain xs a)"
proof (induction xs a rule: drain.induct)
  case (1 a)
  then show ?case by simp
next
  case (2 x xs p)
  then show ?case by (simp add: drain_done)
next
  case (3 now r xs p t ts)
  then show ?case by (simp split: prod.splits)
qed

lemma insert_failed:
  assumes "is_failure r"
  shows "\<exists>q'. drain ((now, r) # rest) (q, [StopAwaitInsert]) = (q', [])
    \<and> issued q' = issued q \<and> transcription q' = [] \<and> savedTranscriptions q' = savedTranscriptions q
    \<and> alerts q' = alerts q @ [case r of Rejected \<Rightarrow> ''An unexpected error occurred. Please try again.''
         | Fulfilled res \<Rightarrow> ''Failed to save transcription. Please try again.'']"
  using assms
  by (auto simp: is_failure_def block_defs drain_done split: response.splits option.splits)

lemma insert_ok:
  assumes "error ins = None"
  shows "\<exists>q'. drain [(now, Fulfilled ins)] (q, [StopAwaitInsert]) = (q', [LoadAwaitProbe])
    \<and> issued q' = issued q @ [CountProbe] \<and> transcription q' = []
    \<and> savedTranscriptions q' = savedTranscriptions q \<and> alerts q' = alerts q"
  using assms
  by (auto simp: block_defs loadSavedTranscriptions_def)

lemma reload_ok:
  assumes "error rp = None" and "error sel = None"
  shows "\<exists>q'. drain [(n3, Fulfilled rp), (n4, Fulfilled sel)] (q, [LoadAwaitProbe]) = (q', [])
    \<and> issued q' = issued q @ [SelectAll]
    \<and> savedTranscriptions q' = (case data sel of None \<Rightarrow> [] | Some rows \<Rightarrow> rows)
    \<and> alerts q' = alerts q \<and> \<not> isLoading q'"
  using assms
  by (auto simp: block_defs)


lemma insert_any:
  "\<exists>q' ts. resume StopAwaitInsert now r q = (q', ts) \<and> load_only ts
     \<and> filter is_insert (issued q') = filter is_insert (issued q) \<and> transcription q' = []"
  by (auto simp: block_defs loadSavedTranscriptions_def load_only_def is_insert_def
      split: response.splits option.splits)

lemma is_insert_simps [simp]:
  "\<not> is_insert CountProbe" "is_insert (InsertRow t c)" "\<not> is_insert SelectAll" "\<not> is_insert (DeleteRow i)"
  by (simp_all add: is_insert_def)

lemma stop_chain_clears:
  assumes nonblank: "trim (transcription p) \<noteq> []"
    and run: "drain script (stopRecording p) = (q, ts)"
    and fin: "load_only ts"
  shows "transcription q = []"
proof (cases script)
  case Nil
  with run nonblank fin show ?thesis
    by (auto simp: stop_nonblank load_only_def)
next
  case (Cons x rest)
  obtain n1 r1 where x: "x = (n1, r1)" by (cases x)
  show ?thesis
  proof (cases "is_failure r1")
    case True
    from stop_probe_failed [OF nonblank True, of n1 rest] run Cons x show ?thesis by auto
  next
    case False
    then obtain probe where r1: "r1 = Fulfilled probe" and pr: "error probe = None"
      by (auto simp: is_failure_def split: response.splits)
    obtain q1 where q1: "drain [(n1, Fulfilled probe)] (stopRecording p) = (q1, [StopAwaitInsert])"
      using stop_probe_ok [OF nonblank pr] by blast
    have step1: "drain script (stopRecording p) = drain rest (q1, [StopAwaitInsert])"
      using drain_append [of "[(n1, Fulfilled probe)]" rest "stopRecording p"] q1 Cons x r1 by simp
    show ?thesis
    proof (cases rest)
      case Nil
      with step1 run fin show ?thesis by (auto simp: load_only_def)
    next
      case (Cons y more)
      obtain n2 r2 where y: "y = (n2, r2)" by (cases y)
      obtain q2 us where r: "resume StopAwaitInsert n2 r2 q1 = (q2, us)" and lo: "load_only us"
        and t2: "transcription q2 = []"
        using insert_any by blast
      have "drain more (q2, us) = (q, ts)"
        using step1 run Cons y r by simp
      from drain_load_frame [OF lo this] t2 show ?thesis by simp
    qed
  qed
qed

lemma load_probe_error:
  assumes "error res \<noteq> None"
  shows "\<exists>q. drain ((now, Fulfilled res) # rest) (loadSavedTranscriptions p) = (q, [])
    \<and> effects q = effects p @ [Issued CountProbe, ConsoleError ''Supabase connection error:'']
    \<and> savedTranscriptions q = savedTranscriptions p"
  using assms
  by (auto simp: loadSavedTranscriptions_def block_defs drain_done)

lemma delete_failed:
  assumes "is_failure r"
  shows "\<exists>q. drain ((now, r) # rest) (deleteTranscription i p) = (q, [])
    \<and> issued q = issued p @ [DeleteRow i] \<and> savedTranscriptions q = savedTranscriptions p
    \<and> alerts q = alerts p @ [case r of Rejected \<Rightarrow> ''An unexpected error occurred. Please try again.''
         | Fulfilled res \<Rightarrow> ''Failed to delete transcription. Please try again.'']"
  using assms
  by (auto simp: deleteTranscription_def is_failure_def block_defs drain_done
      split: response.splits option.splits)

lemma delete_ok:
  assumes "\<not> is_failure r"
  shows "\<exists>q. drain [(now, r)] (deleteTranscription i p) = (q, [LoadAwaitProbe])
    \<and> issued q = issued p @ [DeleteRow i, CountProbe] \<and> savedTranscriptions q = savedTranscriptions p
    \<and> alerts q = alerts p \<and> \<not> isLoading q \<and> showDeleteConfirm q = None"
  using assms
  by (auto simp: deleteTranscription_def loadSavedTranscriptions_def is_failure_def block_defs
      split: response.splits option.splits)

lemma run_append: "run (xs @ ys) a = (case run xs a of None \<Rightarrow> None | Some b \<Rightarrow> run ys b)"
  by (induction xs arbitrary: a) (simp_all split: option.splits)

lemma resume_no_recognition:
  assumes "recognition p = None \<and> \<not> isRecording p" and "resume t now r p = (q, sp)"
  shows "recognition q = None \<and> \<not> isRecording q"
  using assms
  by (cases t) (auto simp: block_defs loadSavedTranscriptions_def split: response.splits option.splits)

lemma step_no_recognition:
  assumes "recognition p = None \<and> \<not> isRecording p" and "step e (p, ts) = Some (q, us)"
  shows "recognition q = None \<and> \<not> isRecording q"
proof (cases e)
  case ClickRecord
  with assms show ?thesis by (auto simp: startRecording_def split: if_splits)
next
  case (ClickDelete i)
  with assms show ?thesis by (auto split: if_splits)
next
  case (ClickConfirm i)
  with assms show ?thesis by (auto simp: deleteTranscription_def split: if_splits)
next
  case (ClickCancel i)
  with assms show ?thesis by (auto split: if_splits)
next
  case (Settle k now r)
  with assms(2) obtain sp where "resume (ts ! k) now r p = (q, sp)"
    by (auto split: if_splits prod.splits)
  with assms(1) show ?thesis by (rule resume_no_recognition)
next
  case (SpeechResult results)
  with assms show ?thesis by simp
next
  case (SpeechError code)
  with assms show ?thesis by simp
qed

lemma run_no_recognition:
  assumes "run es a = Some b" and "recognition (fst a) = None \<and> \<not> isRecording (fst a)"
  shows "recognition (fst b) = None \<and> \<not> isRecording (fst b)"
  using assms
proof (induction es arbitrary: a)
  case Nil
  then show ?case by simp
next
  case (Cons e es)
  from Cons.prems(1) obtain c where c: "step e a = Some c" and r: "run es c = Some b"
    by (auto split: option.splits)
  from step_no_recognition [of "fst a" e "snd a" "fst c" "snd c"] Cons.prems(2) c
  have "recognition (fst c) = None \<and> \<not> isRecording (fst c)" by simp
  with Cons.IH [OF r] show ?case by simp
qed

lemma distinct_numbers:
  assumes "distinct (map (\<lambda>item. to_number (id_t item)) rows)"
  shows "distinct (map id_t rows)"
  using assms by (induction rows) auto

lemma resume_keeps_keys:
  assumes "distinct (map id_t (savedTranscriptions p))" and "keyed (Settle k now r)"
    and "resume t now r p = (q, sp)"
  shows "distinct (map id_t (savedTranscriptions q))"
  using assms
  by (cases t) (auto simp: keyed_def block_defs loadSavedTranscriptions_def Let_def
      dest: distinct_numbers split: response.splits option.splits if_splits)

lemma step_keeps_keys:
  assumes "distinct (map id_t (savedTranscriptions p))" and "keyed e"
    and "step e (p, ts) = Some (q, us)"
  shows "distinct (map id_t (savedTranscriptions q))"
proof (cases e)
  case ClickRecord
  with assms show ?thesis
    by (auto simp: startRecording_def stopRecording_def recognition_stop_def Let_def
        split: if_splits option.splits)
next
  case (ClickDelete i)
  with assms show ?thesis by (auto split: if_splits)
next
  case (ClickConfirm i)
  with assms show ?thesis by (auto simp: deleteTranscription_def split: if_splits)
next
  case (ClickCancel i)
  with assms show ?thesis by (auto split: if_splits)
next
  case (Settle k now r)
  with assms(3) obtain sp where "resume (ts ! k) now r p = (q, sp)"
    by (auto split: if_splits prod.splits)
  with assms(1,2) Settle show ?thesis using resume_keeps_keys by blast
next
  case (SpeechResult results)
  with assms show ?thesis by (auto simp: on_result_def split: option.splits if_splits)
next
  case (SpeechError code)
  with assms show ?thesis by (auto simp: on_error_def Let_def split: option.splits if_splits)
qed

lemma run_keeps_keys:
  assumes "run es a = Some b" and "list_all keyed es"
    and "distinct (map id_t (savedTranscriptions (fst a)))"
  shows "distinct (map id_t (savedTranscriptions (fst b)))"
  using assms
proof (induction es arbitrary: a)
  case Nil
  then show ?case by simp
next
  case (Cons e es)
  from Cons.prems(1) obtain c where c: "step e a = Some c" and r: "run es c = Some b"
    by (auto split: option.splits)
  from Cons.prems(2) have k: "keyed e" "list_all keyed es" by simp_all
  from step_keeps_keys [of "fst a" e "snd a" "fst c" "snd c"] Cons.prems(3) k(1) c
  have "distinct (map id_t (savedTranscriptions (fst c)))" by simp
  from Cons.IH [OF r k(2) this] show ?case .
qed

lemma keyed_rows_filter:
  "distinct (map id_t rows) \<Longrightarrow> length (filter (\<lambda>item. v = Some (id_t item)) rows) \<le> 1"
proof (induction rows)
  case Nil
  then show ?case by simp
next
  case (Cons x xs)
  show ?case
  proof (cases "v = Some (id_t x)")
    case True
    with Cons.prems have "filter (\<lambda>item. v = Some (id_t item)) xs = []"
      by (auto simp: filter_empty_conv)
    with True show ?thesis by simp
  next
    case False
    with Cons show ?thesis by simp
  qed
qed

lemma shown_row_filter:
  "i \<in> set (map id_t rows) \<Longrightarrow> filter (\<lambda>item. Some i = Some (id_t item)) rows \<noteq> []"
  by (auto simp: filter_empty_conv)

lemma to_number_safe: "\<bar>k\<bar> < 2 ^ 53 \<Longrightarrow> to_number k = k"
  by (simp add: to_number_def)

text \<open>Distinct keys below \<open>2\<^sup>5\<^sup>3\<close> are distinct numbers.\<close>

lemma safe_keys_numbers:
  assumes "safe_keys rows"
  shows "distinct (map (\<lambda>item. to_number (id_t item)) (map parse_row rows))"
proof -
  have "map ((\<lambda>item. to_number (id_t item)) \<circ> parse_row) rows = map key rows"
    using assms by (induction rows) (simp_all add: safe_keys_def parse_row_def to_number_safe)
  moreover have "distinct (map key rows)" using assms by (simp add: safe_keys_def)
  ultimately show ?thesis by (simp only: map_map)
qed

lemma first_load_keyed: "list_all keyed first_load"
  by (simp add: first_load_def keyed_def ok_def row7_def row8_def to_number_safe)

lemma first_load_run: "run first_load (mount (Some chrome)) = Some (loaded_page, [])"
  by (simp add: first_load_def mount_def mount_recognition_def loadSavedTranscriptions_def
      initial_def ok_def block_defs emit_def chrome_def loaded_page_def)

section \<open>Stopping with a blank draft\<close>

text \<open>
  C3. When the draft is empty or consists of white space only, \<^verbatim>\<open>stopRecording\<close> issues no
  request to the store: nothing is left suspended, the only effect is the recogniser's halt,
  the settling of later promises changes nothing, and \<^verbatim>\<open>isRecording\<close> is false afterwards.
\<close>

theorem stop_blank_draft:
  assumes "list_all is_ws (transcription p)"
  shows "snd (stopRecording p) = []
    \<and> effects (fst (stopRecording p)) =
        effects p @ (case recognition p of None \<Rightarrow> [] | Some g \<Rightarrow> [RecognitionStop])
    \<and> issued (fst (stopRecording p)) = issued p
    \<and> \<not> isRecording (fst (stopRecording p))
    \<and> drain script (stopRecording p) = stopRecording p"
proof -
  from assms have blank: "trim (transcription p) = []"
    by (simp add: trim_empty_iff)
  obtain q where q: "stopRecording p = (q, [])"
    using blank by (simp add: stopRecording_def Let_def)
  have "effects q = effects p @ (case recognition p of None \<Rightarrow> [] | Some g \<Rightarrow> [RecognitionStop])"
    "\<not> isRecording q"
    using q blank by (auto simp: handler_defs Let_def split: option.splits)
  moreover from this(1) have "issued q = issued p"
    by (simp add: issued_def split: option.splits)
  moreover have "drain script (q, []) = (q, [])"
    by (cases script) auto
  ultimately show ?thesis using q by simp
qed

theorem stop_blank_draft_witness:
  "list_all is_ws (transcription (initial\<lparr>isRecording := True, transcription := utf16 ''  ''\<rparr>))
   \<and> snd (stopRecording (initial\<lparr>isRecording := True, transcription := utf16 ''  ''\<rparr>)) = []
   \<and> \<not> isRecording (fst (stopRecording (initial\<lparr>isRecording := True, transcription := utf16 ''  ''\<rparr>)))
   \<and> issued (fst (stopRecording (initial\<lparr>isRecording := True, transcription := utf16 ''  ''\<rparr>))) = []"
proof -
  have h: "list_all is_ws (transcription (initial\<lparr>isRecording := True, transcription := utf16 ''  ''\<rparr>))"
    by (simp add: utf16_def is_ws_def)
  have "issued (initial\<lparr>isRecording := True, transcription := utf16 ''  ''\<rparr>) = []"
    by (simp add: issued_def initial_def)
  with h stop_blank_draft [OF h, of "[]"] show ?thesis by simp
qed

section \<open>The confirmation gate after a delete\<close>

text \<open>
  C6. Whatever the delete's promise settles to (success, a store error or a rejection), and
  whatever settles after it, \<^verbatim>\<open>showDeleteConfirm\<close> is \<^verbatim>\<open>null\<close> once \<^verbatim>\<open>deleteTranscription\<close>
  has run on.
\<close>

theorem delete_clears_gate:
  "showDeleteConfirm (fst (drain ((now, r) # rest) (deleteTranscription i p))) = None"
proof -
  obtain q ts where res: "resume DeleteAwait now r (fst (deleteTranscription i p)) = (q, ts)"
    by (cases "resume DeleteAwait now r (fst (deleteTranscription i p))")
  then have lo: "load_only ts" and gate: "showDeleteConfirm q = None"
    by (auto simp: load_only_def handler_defs split: response.splits option.splits)
  obtain q' us where dr: "drain rest (q, ts) = (q', us)"
    by (cases "drain rest (q, ts)")
  from drain_load_frame [OF lo dr] gate have "showDeleteConfirm q' = None" by simp
  moreover have "drain ((now, r) # rest) (deleteTranscription i p) = (q', us)"
    using res dr by (simp add: deleteTranscription_def)
  ultimately show ?thesis by simp
qed

section \<open>Stopping with a draft to save\<close>

text \<open>
  C2. When the draft is not empty after trimming and the count probe succeeds, the run of
  \<^verbatim>\<open>stopRecording\<close> issues exactly one insert, whatever settles afterwards: it carries the
  draft as it is and \<^verbatim>\<open>new Date().toISOString()\<close>, which is a well-formed ISO-8601 UTC
  timestamp for every date of the platform. When the insert succeeds, the reload is started (its
  count probe is issued and its task is suspended), and when the reload's probe and select
  succeed the saved list is replaced by the rows selected.
\<close>

theorem stop_saves_draft_once:
  assumes nonblank: "trim (transcription p) \<noteq> []"
    and probe: "error probe = None"
    and clock: "valid_date now"
  shows "filter is_insert (issued (fst (drain ((now, Fulfilled probe) # rest) (stopRecording p))))
           = filter is_insert (issued p) @ [InsertRow (transcription p) (toISOString now)]
    \<and> iso8601_utc (toISOString now)
    \<and> (error ins = None \<longrightarrow>
         issued (fst (drain [(now, Fulfilled probe), (now', Fulfilled ins)] (stopRecording p)))
           = issued p @ [CountProbe, InsertRow (transcription p) (toISOString now), CountProbe]
         \<and> snd (drain [(now, Fulfilled probe), (now', Fulfilled ins)] (stopRecording p)) = [LoadAwaitProbe]
         \<and> (error rp = None \<and> error sel = None \<longrightarrow>
              issued (fst (drain [(now, Fulfilled probe), (now', Fulfilled ins), (n3, Fulfilled rp),
                  (n4, Fulfilled sel)] (stopRecording p)))
                = issued p @ [CountProbe, InsertRow (transcription p) (toISOString now), CountProbe, SelectAll]
              \<and> savedTranscriptions (fst (drain [(now, Fulfilled probe), (now', Fulfilled ins),
                  (n3, Fulfilled rp), (n4, Fulfilled sel)] (stopRecording p)))
                = (case data sel of None \<Rightarrow> [] | Some rows \<Rightarrow> rows)))"
proof (intro conjI impI)
  obtain q1 where q1: "drain [(now, Fulfilled probe)] (stopRecording p) = (q1, [StopAwaitInsert])"
    and i1: "issued q1 = issued p @ [CountProbe, InsertRow (transcription p) (toISOString now)]"
    using stop_probe_ok [OF nonblank probe] by blast
  have step1: "drain ((now, Fulfilled probe) # xs) (stopRecording p) = drain xs (q1, [StopAwaitInsert])" for xs
    using drain_append [of "[(now, Fulfilled probe)]" xs "stopRecording p"] q1 by simp
  show "filter is_insert (issued (fst (drain ((now, Fulfilled probe) # rest) (stopRecording p))))
           = filter is_insert (issued p) @ [InsertRow (transcription p) (toISOString now)]"
  proof (cases rest)
    case Nil
    then show ?thesis using step1 [of "[]"] i1 by simp
  next
    case (Cons x xs)
    obtain n2 r2 where x: "x = (n2, r2)" by (cases x)
    obtain q2 ts where r: "resume StopAwaitInsert n2 r2 q1 = (q2, ts)" and lo: "load_only ts"
      and i2: "filter is_insert (issued q2) = filter is_insert (issued q1)"
      using insert_any by blast
    obtain q3 us where d: "drain xs (q2, ts) = (q3, us)" by (cases "drain xs (q2, ts)")
    from drain_load_frame [OF lo d] have "filter is_insert (issued q3) = filter is_insert (issued q2)"
      by simp
    moreover have "drain ((now, Fulfilled probe) # rest) (stopRecording p) = (q3, us)"
      using step1 [of rest] Cons x r d by simp
    ultimately show ?thesis using i1 i2 by simp
  qed
  show "iso8601_utc (toISOString now)"
    using clock by (rule toISOString_wellformed)
  assume ins: "error ins = None"
  obtain q2 where q2: "drain [(now', Fulfilled ins)] (q1, [StopAwaitInsert]) = (q2, [LoadAwaitProbe])"
    and i2: "issued q2 = issued q1 @ [CountProbe]"
    using insert_ok [OF ins] by blast
  have two: "drain [(now, Fulfilled probe), (now', Fulfilled ins)] (stopRecording p) = (q2, [LoadAwaitProbe])"
    using step1 [of "[(now', Fulfilled ins)]"] q2 by simp
  show "issued (fst (drain [(now, Fulfilled probe), (now', Fulfilled ins)] (stopRecording p)))
           = issued p @ [CountProbe, InsertRow (transcription p) (toISOString now), CountProbe]"
    using two i1 i2 by simp
  show "snd (drain [(now, Fulfilled probe), (now', Fulfilled ins)] (stopRecording p)) = [LoadAwaitProbe]"
    using two by simp
  assume rel: "error rp = None \<and> error sel = None"
  obtain q4 where q4: "drain [(n3, Fulfilled rp), (n4, Fulfilled sel)] (q2, [LoadAwaitProbe]) = (q4, [])"
    and i4: "issued q4 = issued q2 @ [SelectAll]"
    and s4: "savedTranscriptions q4 = (case data sel of None \<Rightarrow> [] | Some rows \<Rightarrow> rows)"
    using reload_ok [of rp sel] rel by blast
  have four: "drain [(now, Fulfilled probe), (now', Fulfilled ins), (n3, Fulfilled rp), (n4, Fulfilled sel)]
      (stopRecording p) = (q4, [])"
    using drain_append [of "[(now, Fulfilled probe), (now', Fulfilled ins)]"
        "[(n3, Fulfilled rp), (n4, Fulfilled sel)]" "stopRecording p"] two q4
    by simp
  show "issued (fst (drain [(now, Fulfilled probe), (now', Fulfilled ins), (n3, Fulfilled rp),
      (n4, Fulfilled sel)] (stopRecording p)))
      = issued p @ [CountProbe, InsertRow (transcription p) (toISOString now), CountProbe, SelectAll]"
    using four i1 i2 i4 by simp
  show "savedTranscriptions (fst (drain [(now, Fulfilled probe), (now', Fulfilled ins),
      (n3, Fulfilled rp), (n4, Fulfilled sel)] (stopRecording p)))
      = (case data sel of None \<Rightarrow> [] | Some rows \<Rightarrow> rows)"
    using four s4 by simp
qed


lemma example_date_iso: "toISOString example_date = utf16 ''2026-11-01T23:05:09.042Z''"
  by code_simp

lemma example_date_valid: "valid_date example_date"
  by (simp add: valid_date_def example_date_def)

lemma hello_nonblank: "trim (transcription hello_page) \<noteq> []"
  by code_simp

theorem stop_saves_draft_once_witness:
  "trim (transcription hello_page) \<noteq> [] \<and> error \<lparr>data = None, error = None\<rparr> = None
   \<and> valid_date example_date
   \<and> filter is_insert (issued (fst (drain [(example_date, ok None), (example_date, failed ''timeout'')]
         (stopRecording hello_page))))
       = [InsertRow (utf16 ''hello world'') (utf16 ''2026-11-01T23:05:09.042Z'')]
   \<and> iso8601_utc (utf16 ''2026-11-01T23:05:09.042Z'')
   \<and> issued (fst (drain [(example_date, ok None), (example_date, ok None)] (stopRecording hello_page)))
       = [CountProbe, InsertRow (utf16 ''hello world'') (utf16 ''2026-11-01T23:05:09.042Z''), CountProbe]"
proof -
  have e: "error \<lparr>data = None, error = None\<rparr> = None" by simp
  have i: "issued hello_page = []" "transcription hello_page = utf16 ''hello world''"
    by (simp_all add: hello_page_def initial_def issued_def)
  from stop_saves_draft_once [OF hello_nonblank e example_date_valid,
      of "[(example_date, failed ''timeout'')]" "\<lparr>data = None, error = None\<rparr>" example_date]
  show ?thesis
    using hello_nonblank example_date_valid by (simp add: i example_date_iso ok_def)
qed

section \<open>The draft after a stop\<close>

text \<open>
  C4, as stated, fails on the blank path: a draft of one space passes the guard
  \<^verbatim>\<open>!transcription.trim()\<close>, \<^verbatim>\<open>stopRecording\<close> returns before its \<^verbatim>\<open>try\<close>, and the draft is
  still that space when the handler has completed.
\<close>

theorem whitespace_draft_survives_stop:
  "list_all is_ws (transcription blank_page)
   \<and> snd (stopRecording blank_page) = []
   \<and> transcription (fst (stopRecording blank_page)) = utf16 '' ''
   \<and> transcription (fst (stopRecording blank_page)) \<noteq> []"
  by code_simp

text \<open>
  C4, amended. When the draft is not blank, the draft is the empty string once
  \<^verbatim>\<open>stopRecording\<close> has completed (none of its own tasks is suspended any more), whatever
  the probe and the insert settled to; when the draft is blank, \<^verbatim>\<open>stopRecording\<close> completes
  at once and leaves the draft as it was.
\<close>

theorem stop_clears_draft_past_guard:
  "(trim (transcription p) \<noteq> [] \<and> drain script (stopRecording p) = (q, ts) \<and> load_only ts
      \<longrightarrow> transcription q = [])
   \<and> (trim (transcription p) = []
      \<longrightarrow> snd (stopRecording p) = [] \<and> transcription (fst (stopRecording p)) = transcription p)"
proof (intro conjI impI)
  assume "trim (transcription p) \<noteq> [] \<and> drain script (stopRecording p) = (q, ts) \<and> load_only ts"
  then show "transcription q = []" using stop_chain_clears by blast
next
  assume "trim (transcription p) = []"
  then show "snd (stopRecording p) = []"
    by (simp add: stopRecording_def Let_def)
next
  assume "trim (transcription p) = []"
  then show "transcription (fst (stopRecording p)) = transcription p"
    by (simp add: stopRecording_def Let_def recognition_stop_frame)
qed

theorem stop_clears_draft_past_guard_witness:
  "trim (transcription hello_page) \<noteq> []
   \<and> drain [(example_date, failed ''unreachable'')] (stopRecording hello_page)
       = (fst (drain [(example_date, failed ''unreachable'')] (stopRecording hello_page)), [])
   \<and> load_only []
   \<and> transcription (fst (drain [(example_date, failed ''unreachable'')] (stopRecording hello_page))) = []
   \<and> trim (transcription blank_page) = []
   \<and> transcription (fst (stopRecording blank_page)) = transcription blank_page"
proof -
  have a: "drain [(example_date, failed ''unreachable'')] (stopRecording hello_page)
       = (fst (drain [(example_date, failed ''unreachable'')] (stopRecording hello_page)), [])"
    by code_simp
  have b: "load_only []" by (simp add: load_only_def)
  have c: "trim (transcription blank_page) = []" by code_simp
  from stop_clears_draft_past_guard [of hello_page "[(example_date, failed ''unreachable'')]"
      "fst (drain [(example_date, failed ''unreachable'')] (stopRecording hello_page))" "[]"]
    stop_clears_draft_past_guard [of blank_page]
  show ?thesis using hello_nonblank a b c by simp
qed

section \<open>A failed connectivity probe\<close>

text \<open>
  C5. When the count probe returns an error, the operation stops there. In the save path
  (\<^verbatim>\<open>stopRecording\<close> with a draft to save) the probe is the only request ever issued and the
  user is alerted; in the load path the only effects are the probe and one \<^verbatim>\<open>console.error\<close>,
  no alert is raised, no select is issued and the saved list is unchanged.
\<close>

theorem probe_error_short_circuits:
  assumes "error res \<noteq> None"
  shows "(trim (transcription p) \<noteq> [] \<longrightarrow>
            snd (drain ((now, Fulfilled res) # rest) (stopRecording p)) = []
          \<and> issued (fst (drain ((now, Fulfilled res) # rest) (stopRecording p))) = issued p @ [CountProbe]
          \<and> alerts (fst (drain ((now, Fulfilled res) # rest) (stopRecording p)))
              = alerts p @ [''Failed to connect to the database. Please check your connection and try again.''])
    \<and> snd (drain ((now, Fulfilled res) # rest) (loadSavedTranscriptions p)) = []
    \<and> effects (fst (drain ((now, Fulfilled res) # rest) (loadSavedTranscriptions p)))
        = effects p @ [Issued CountProbe, ConsoleError ''Supabase connection error:'']
    \<and> savedTranscriptions (fst (drain ((now, Fulfilled res) # rest) (loadSavedTranscriptions p)))
        = savedTranscriptions p"
proof -
  from assms have f: "is_failure (Fulfilled res)" by (simp add: is_failure_def)
  have "trim (transcription p) \<noteq> [] \<longrightarrow>
            snd (drain ((now, Fulfilled res) # rest) (stopRecording p)) = []
          \<and> issued (fst (drain ((now, Fulfilled res) # rest) (stopRecording p))) = issued p @ [CountProbe]
          \<and> alerts (fst (drain ((now, Fulfilled res) # rest) (stopRecording p)))
              = alerts p @ [''Failed to connect to the database. Please check your connection and try again.'']"
  proof
    assume nb: "trim (transcription p) \<noteq> []"
    from stop_probe_failed [OF nb f, where now = now and rest = rest] show "snd (drain ((now, Fulfilled res) # rest) (stopRecording p)) = []
          \<and> issued (fst (drain ((now, Fulfilled res) # rest) (stopRecording p))) = issued p @ [CountProbe]
          \<and> alerts (fst (drain ((now, Fulfilled res) # rest) (stopRecording p)))
              = alerts p @ [''Failed to connect to the database. Please check your connection and try again.'']"
      by auto
  qed
  moreover from load_probe_error [OF assms, where now = now and rest = rest and p = p]
  have "snd (drain ((now, Fulfilled res) # rest) (loadSavedTranscriptions p)) = []
    \<and> effects (fst (drain ((now, Fulfilled res) # rest) (loadSavedTranscriptions p)))
        = effects p @ [Issued CountProbe, ConsoleError ''Supabase connection error:'']
    \<and> savedTranscriptions (fst (drain ((now, Fulfilled res) # rest) (loadSavedTranscriptions p)))
        = savedTranscriptions p"
    by auto
  ultimately show ?thesis by blast
qed

theorem probe_error_short_circuits_witness:
  "error \<lparr>data = None, error = Some ''fetch failed''\<rparr> \<noteq> None \<and> trim (transcription hello_page) \<noteq> []
   \<and> effects (fst (drain [(example_date, failed ''fetch failed''), (example_date, ok None)]
        (stopRecording hello_page)))
      = [Issued CountProbe, ConsoleError ''Supabase connection error:'',
         Alert ''Failed to connect to the database. Please check your connection and try again.'']
   \<and> issued (fst (drain [(example_date, failed ''fetch failed''), (example_date, ok None)]
        (stopRecording hello_page))) = [CountProbe]
   \<and> effects (fst (drain [(example_date, failed ''fetch failed''), (example_date, ok None)]
        (loadSavedTranscriptions initial)))
      = [Issued CountProbe, ConsoleError ''Supabase connection error:'']"
proof -
  have e: "error \<lparr>data = None, error = Some ''fetch failed''\<rparr> \<noteq> None" by simp
  have i: "issued hello_page = []" "effects initial = []"
    by (simp_all add: hello_page_def initial_def issued_def)
  have x: "effects (fst (drain [(example_date, failed ''fetch failed''), (example_date, ok None)]
        (stopRecording hello_page)))
      = [Issued CountProbe, ConsoleError ''Supabase connection error:'',
         Alert ''Failed to connect to the database. Please check your connection and try again.'']"
    by code_simp
  from probe_error_short_circuits [OF e, where p = hello_page and now = example_date
      and rest = "[(example_date, ok None)]"]
    probe_error_short_circuits [OF e, where p = initial and now = example_date
      and rest = "[(example_date, ok None)]"]
  show ?thesis using hello_nonblank x by (simp add: i failed_def)
qed

section \<open>A failed insert or delete\<close>

text \<open>
  C10. The reload is started exactly when the mutation's promise settles without error: after
  the insert's reply, and after the delete's, a reload task is suspended if and only if the
  reply is a success. When the insert fails (a store error or a rejection) nothing more is
  ever issued and the saved list is the one before \<^verbatim>\<open>stopRecording\<close>; likewise when the
  delete fails.
\<close>

theorem failed_mutation_keeps_list:
  "(trim (transcription p) \<noteq> [] \<and> error probe = None \<longrightarrow>
      snd (drain [(n1, Fulfilled probe), (n2, r)] (stopRecording p))
        = (if is_failure r then [] else [LoadAwaitProbe])
    \<and> (is_failure r \<longrightarrow>
          snd (drain ((n1, Fulfilled probe) # (n2, r) # rest) (stopRecording p)) = []
        \<and> savedTranscriptions (fst (drain ((n1, Fulfilled probe) # (n2, r) # rest) (stopRecording p)))
            = savedTranscriptions p
        \<and> issued (fst (drain ((n1, Fulfilled probe) # (n2, r) # rest) (stopRecording p)))
            = issued p @ [CountProbe, InsertRow (transcription p) (toISOString n1)]))
   \<and> snd (drain [(n2, r)] (deleteTranscription i p)) = (if is_failure r then [] else [LoadAwaitProbe])
   \<and> (is_failure r \<longrightarrow>
          snd (drain ((n2, r) # rest) (deleteTranscription i p)) = []
        \<and> savedTranscriptions (fst (drain ((n2, r) # rest) (deleteTranscription i p)))
            = savedTranscriptions p
        \<and> issued (fst (drain ((n2, r) # rest) (deleteTranscription i p))) = issued p @ [DeleteRow i])"
proof (intro conjI impI)
  assume h: "trim (transcription p) \<noteq> [] \<and> error probe = None"
  then obtain q1 where q1: "drain [(n1, Fulfilled probe)] (stopRecording p) = (q1, [StopAwaitInsert])"
    and i1: "issued q1 = issued p @ [CountProbe, InsertRow (transcription p) (toISOString n1)]"
    and s1: "savedTranscriptions q1 = savedTranscriptions p"
    using stop_probe_ok [of p probe n1] by blast
  have step1: "drain ((n1, Fulfilled probe) # xs) (stopRecording p) = drain xs (q1, [StopAwaitInsert])" for xs
    using drain_append [of "[(n1, Fulfilled probe)]" xs "stopRecording p"] q1 by simp
  show "snd (drain [(n1, Fulfilled probe), (n2, r)] (stopRecording p))
        = (if is_failure r then [] else [LoadAwaitProbe])"
  proof (cases "is_failure r")
    case True
    from insert_failed [OF True, where now = n2 and rest = "[]" and q = q1] show ?thesis
      using True step1 [of "[(n2, r)]"] by auto
  next
    case False
    then obtain ins where "r = Fulfilled ins" "error ins = None"
      by (auto simp: is_failure_def split: response.splits)
    with insert_ok [of ins n2 q1] show ?thesis
      using False step1 [of "[(n2, r)]"] by auto
  qed
  assume f: "is_failure r"
  from insert_failed [OF f, where now = n2 and rest = rest and q = q1]
  obtain q2 where q2: "drain ((n2, r) # rest) (q1, [StopAwaitInsert]) = (q2, [])"
    and i2: "issued q2 = issued q1" and s2: "savedTranscriptions q2 = savedTranscriptions q1"
    by blast
  have all: "drain ((n1, Fulfilled probe) # (n2, r) # rest) (stopRecording p) = (q2, [])"
    using step1 [of "(n2, r) # rest"] q2 by simp
  show "snd (drain ((n1, Fulfilled probe) # (n2, r) # rest) (stopRecording p)) = []"
    using all by simp
  show "savedTranscriptions (fst (drain ((n1, Fulfilled probe) # (n2, r) # rest) (stopRecording p)))
            = savedTranscriptions p"
    using all s1 s2 by simp
  show "issued (fst (drain ((n1, Fulfilled probe) # (n2, r) # rest) (stopRecording p)))
            = issued p @ [CountProbe, InsertRow (transcription p) (toISOString n1)]"
    using all i1 i2 by simp
next
  show "snd (drain [(n2, r)] (deleteTranscription i p)) = (if is_failure r then [] else [LoadAwaitProbe])"
  proof (cases "is_failure r")
    case True
    from delete_failed [OF True, where now = n2 and rest = "[]" and i = i and p = p] show ?thesis
      using True by auto
  next
    case False
    from delete_ok [OF False, where now = n2 and i = i and p = p] show ?thesis
      using False by auto
  qed
next
  assume f: "is_failure r"
  from delete_failed [OF f, where now = n2 and rest = rest and i = i and p = p]
  obtain q where q: "drain ((n2, r) # rest) (deleteTranscription i p) = (q, [])"
    and iq: "issued q = issued p @ [DeleteRow i]" and sq: "savedTranscriptions q = savedTranscriptions p"
    by blast
  show "snd (drain ((n2, r) # rest) (deleteTranscription i p)) = []" using q by simp
  show "savedTranscriptions (fst (drain ((n2, r) # rest) (deleteTranscription i p))) = savedTranscriptions p"
    using q sq by simp
  show "issued (fst (drain ((n2, r) # rest) (deleteTranscription i p))) = issued p @ [DeleteRow i]"
    using q iq by simp
qed


theorem failed_mutation_keeps_list_witness:
  "trim (transcription listed_page) \<noteq> [] \<and> error \<lparr>data = None, error = None\<rparr> = None
   \<and> is_failure (failed ''row level security'')
   \<and> drain [(example_date, ok None), (example_date, failed ''row level security''),
         (example_date, ok None), (example_date, ok (Some []))] (stopRecording listed_page)
       = (fst (drain [(example_date, ok None), (example_date, failed ''row level security'')]
           (stopRecording listed_page)), [])
   \<and> savedTranscriptions (fst (drain [(example_date, ok None), (example_date, failed ''row level security''),
         (example_date, ok None), (example_date, ok (Some []))] (stopRecording listed_page))) = [row7, row8]
   \<and> savedTranscriptions (fst (drain [(example_date, failed ''row level security''),
         (example_date, ok None), (example_date, ok (Some []))] (deleteTranscription 7 listed_page))) = [row7, row8]
   \<and> issued (fst (drain [(example_date, failed ''row level security''),
         (example_date, ok None), (example_date, ok (Some []))] (deleteTranscription 7 listed_page))) = [DeleteRow 7]"
proof -
  have e: "error \<lparr>data = None, error = None\<rparr> = None" by simp
  have f: "is_failure (failed ''row level security'')" by (simp add: is_failure_def failed_def)
  have l: "savedTranscriptions listed_page = [row7, row8]" "issued listed_page = []"
    by (simp_all add: listed_page_def hello_page_def initial_def issued_def)
  have nb: "trim (transcription listed_page) \<noteq> []" by code_simp
  have x: "drain [(example_date, ok None), (example_date, failed ''row level security''),
         (example_date, ok None), (example_date, ok (Some []))] (stopRecording listed_page)
       = (fst (drain [(example_date, ok None), (example_date, failed ''row level security'')]
           (stopRecording listed_page)), [])"
    by code_simp
  from failed_mutation_keeps_list [where p = listed_page and probe = "\<lparr>data = None, error = None\<rparr>"
      and r = "failed ''row level security''" and ?n1.0 = example_date and ?n2.0 = example_date
      and rest = "[(example_date, ok None), (example_date, ok (Some []))]" and i = 7]
  show ?thesis using e f nb x by (simp add: l ok_def)
qed

section \<open>The delete without a probe\<close>

text \<open>
  C1. The save and load paths issue the count probe first (see C5); \<^verbatim>\<open>deleteTranscription\<close>
  does not. On a page with rows 7 and 8 and no effect so far, confirming the delete of row 7
  issues the delete as the very first request, and when the store is unreachable the failure
  reported is that of the delete itself.
\<close>

theorem delete_issued_without_probe:
  "effects listed_page = []
   \<and> deleteTranscription 7 listed_page
       = (listed_page\<lparr>isLoading := True, effects := [Issued (DeleteRow 7)]\<rparr>, [DeleteAwait])
   \<and> effects (fst (drain [(example_date, failed ''fetch failed'')] (deleteTranscription 7 listed_page)))
       = [Issued (DeleteRow 7), ConsoleError ''Error deleting transcription:'',
          Alert ''Failed to delete transcription. Please try again.'']"
  by code_simp

section \<open>A platform without speech recognition\<close>

text \<open>
  C8. When the browser has neither \<^verbatim>\<open>SpeechRecognition\<close> nor \<^verbatim>\<open>webkitSpeechRecognition\<close>,
  the handle is \<^verbatim>\<open>null\<close> after mount and stays so in every state the page reaches, where
  \<^verbatim>\<open>isRecording\<close> is false as well, so that the record button runs \<^verbatim>\<open>startRecording\<close>;
  \<^verbatim>\<open>startRecording\<close> returns at once with the page unchanged, no effect and nothing suspended
  (every exception of the model is a branch of its own, and none is taken), and a click on the
  button, when it is not disabled, leaves the whole state as it is.
\<close>

theorem no_capability_inert:
  assumes "\<not> has_SpeechRecognition g \<and> \<not> has_webkitSpeechRecognition g"
    and "run es (mount (Some g)) = Some (p, ts)"
  shows "recognition (fst (mount (Some g))) = None
    \<and> recognition p = None \<and> \<not> isRecording p
    \<and> startRecording p = (p, [])
    \<and> step ClickRecord (p, ts) = (if isLoading p then None else Some (p, ts))"
proof -
  from assms(1) have m: "recognition (fst (mount (Some g))) = None \<and> \<not> isRecording (fst (mount (Some g)))"
    by (simp add: mount_def mount_recognition_def loadSavedTranscriptions_def initial_def)
  from run_no_recognition [OF assms(2) m] have i: "recognition p = None" "\<not> isRecording p" by simp_all
  then have s: "startRecording p = (p, [])" by (simp add: startRecording_def)
  from i s m show ?thesis by simp
qed

theorem no_capability_inert_witness:
  "\<not> has_SpeechRecognition no_speech \<and> \<not> has_webkitSpeechRecognition no_speech
   \<and> run [Settle 0 example_date (ok None), Settle 0 example_date (ok (Some [row7, row8])), ClickRecord,
        ClickRecord] (mount (Some no_speech))
      = run [Settle 0 example_date (ok None), Settle 0 example_date (ok (Some [row7, row8]))]
          (mount (Some no_speech))
   \<and> map_option (\<lambda>a. (recognition (fst a), isRecording (fst a), isLoading (fst a), effects (fst a), snd a))
        (run [Settle 0 example_date (ok None), Settle 0 example_date (ok (Some [row7, row8])), ClickRecord,
           ClickRecord] (mount (Some no_speech)))
      = Some (None, False, False, [Issued CountProbe, Issued SelectAll], [])"
proof -
  have g: "\<not> has_SpeechRecognition no_speech \<and> \<not> has_webkitSpeechRecognition no_speech"
    by (simp add: no_speech_def)
  obtain p ts where r: "run [Settle 0 example_date (ok None), Settle 0 example_date (ok (Some [row7, row8]))]
      (mount (Some no_speech)) = Some (p, ts)"
    and l: "\<not> isLoading p" and e: "effects p = [Issued CountProbe, Issued SelectAll]" and t: "ts = []"
    by (simp add: mount_def mount_recognition_def loadSavedTranscriptions_def initial_def ok_def
        block_defs emit_def no_speech_def)
  from no_capability_inert [OF g r] l have c: "step ClickRecord (p, ts) = Some (p, ts)"
    and n: "recognition p = None" "\<not> isRecording p"
    by simp_all
  have "run [Settle 0 example_date (ok None), Settle 0 example_date (ok (Some [row7, row8])), ClickRecord,
        ClickRecord] (mount (Some no_speech)) = Some (p, ts)"
    using run_append [of "[Settle 0 example_date (ok None), Settle 0 example_date (ok (Some [row7, row8]))]"
        "[ClickRecord, ClickRecord]" "mount (Some no_speech)"] r c
    by simp
  with g r l e t n show ?thesis by simp
qed

section \<open>The delete confirmation gate\<close>

text \<open>
  C7, as stated, fails when two rows of the list have the same id as numbers. The store holds
  the keys 9007199254740993 and 9007199254740992, which differ; the page receives both as the
  number 9007199254740992; a click on the delete button of either row sets
  \<^verbatim>\<open>showDeleteConfirm\<close> to that number, and both rows are armed.
\<close>

theorem colliding_keys_arm_two_rows:
  "key big_row_a \<noteq> key big_row_b
   \<and> map id_t (map parse_row [big_row_a, big_row_b]) = [9007199254740992, 9007199254740992]
   \<and> map_option (\<lambda>a. (showDeleteConfirm (fst a), length (armed_rows (fst a))))
        (run [Settle 0 example_date (ok None),
              Settle 0 example_date (ok (Some (map parse_row [big_row_a, big_row_b]))),
              ClickDelete 9007199254740992] (mount (Some chrome)))
      = Some (Some 9007199254740992, 2)"
proof -
  have n: "to_number 9007199254740993 = 9007199254740992" "to_number 9007199254740992 = 9007199254740992"
    by (simp_all add: to_number_def round53_def Let_def)
  show ?thesis
    by (simp add: n big_row_a_def big_row_b_def parse_row_def mount_def mount_recognition_def
        loadSavedTranscriptions_def initial_def ok_def block_defs emit_def chrome_def row_shown_def
        armed_rows_def)
qed

text \<open>
  C7, amended. In every state the page reaches from mount, when the rows of each reply have
  pairwise distinct ids as numbers (so it is for the keys of the table below \<open>2\<^sup>5\<^sup>3\<close>), at most
  one rendered row is armed (shows Confirm and Cancel). Arming row \<open>a\<close> and then row
  \<open>b\<close> leaves exactly the row of id \<open>b\<close> armed, and Cancel leaves no row armed.
\<close>

theorem one_row_armed:
  assumes "list_all keyed es" and "run es (mount win) = Some (p, ts)"
  shows "length (armed_rows p) \<le> 1
    \<and> (step (ClickDelete a) (p, ts) = Some (p1, ts1) \<and> step (ClickDelete b) (p1, ts1) = Some (p2, ts2)
         \<longrightarrow> showDeleteConfirm p2 = Some b
           \<and> armed_rows p2 = filter (\<lambda>item. id_t item = b) (savedTranscriptions p2)
           \<and> length (armed_rows p2) = 1)
    \<and> (step (ClickCancel a) (p, ts) = Some (p1, ts1) \<longrightarrow> armed_rows p1 = [])"
proof (intro conjI impI)
  have "distinct (map id_t (savedTranscriptions (fst (mount win))))"
    by (simp add: mount_def loadSavedTranscriptions_def mount_recognition_def initial_def
        split: option.splits)
  from run_keeps_keys [OF assms(2) assms(1) this]
  have d: "distinct (map id_t (savedTranscriptions p))" by simp
  then show "length (armed_rows p) \<le> 1"
    unfolding armed_rows_def by (rule keyed_rows_filter)
  {
    assume h: "step (ClickDelete a) (p, ts) = Some (p1, ts1) \<and> step (ClickDelete b) (p1, ts1) = Some (p2, ts2)"
    then have p1: "p1 = p\<lparr>showDeleteConfirm := Some a\<rparr>"
      by (auto split: if_splits)
    from h have p2: "p2 = p1\<lparr>showDeleteConfirm := Some b\<rparr>" and shown: "row_shown b p1"
      by (auto split: if_splits)
    show "showDeleteConfirm p2 = Some b" using p2 by simp
    have eq: "armed_rows p2 = filter (\<lambda>item. Some b = Some (id_t item)) (savedTranscriptions p)"
      using p1 p2 by (simp add: armed_rows_def)
    show "armed_rows p2 = filter (\<lambda>item. id_t item = b) (savedTranscriptions p2)"
      using p1 p2 by (auto simp: armed_rows_def intro: filter_cong)
    from shown p1 have "b \<in> set (map id_t (savedTranscriptions p))"
      by (simp add: row_shown_def)
    then have "armed_rows p2 \<noteq> []" unfolding eq by (rule shown_row_filter)
    moreover have "length (armed_rows p2) \<le> 1" unfolding eq using d by (rule keyed_rows_filter)
    ultimately show "length (armed_rows p2) = 1"
      by (cases "armed_rows p2") simp_all
  }
  assume "step (ClickCancel a) (p, ts) = Some (p1, ts1)"
  then have "p1 = p\<lparr>showDeleteConfirm := None\<rparr>" by (auto split: if_splits)
  then show "armed_rows p1 = []" by (simp add: armed_rows_def)
qed


theorem one_row_armed_witness:
  "list_all keyed (first_load @ [ClickDelete 7])
   \<and> run (first_load @ [ClickDelete 7]) (mount (Some chrome))
       = Some (loaded_page\<lparr>showDeleteConfirm := Some 7\<rparr>, [])
   \<and> armed_rows (loaded_page\<lparr>showDeleteConfirm := Some 7\<rparr>) = [row7]
   \<and> step (ClickDelete 7) (loaded_page, []) = Some (loaded_page\<lparr>showDeleteConfirm := Some 7\<rparr>, [])
   \<and> step (ClickDelete 8) (loaded_page\<lparr>showDeleteConfirm := Some 7\<rparr>, [])
       = Some (loaded_page\<lparr>showDeleteConfirm := Some 8\<rparr>, [])
   \<and> armed_rows (loaded_page\<lparr>showDeleteConfirm := Some 8\<rparr>) = [row8]
   \<and> step (ClickCancel 7) (loaded_page\<lparr>showDeleteConfirm := Some 7\<rparr>, []) = Some (loaded_page, [])
   \<and> armed_rows loaded_page = []"
proof -
  have k: "list_all keyed (first_load @ [ClickDelete 7])"
    using first_load_keyed by (simp add: keyed_def)
  have s1: "step (ClickDelete 7) (loaded_page, []) = Some (loaded_page\<lparr>showDeleteConfirm := Some 7\<rparr>, [])"
    by (simp add: loaded_page_def row_shown_def row7_def row8_def)
  have s2: "step (ClickDelete 8) (loaded_page\<lparr>showDeleteConfirm := Some 7\<rparr>, [])
       = Some (loaded_page\<lparr>showDeleteConfirm := Some 8\<rparr>, [])"
    by (simp add: loaded_page_def row_shown_def row7_def row8_def)
  have s3: "step (ClickCancel 7) (loaded_page\<lparr>showDeleteConfirm := Some 7\<rparr>, []) = Some (loaded_page, [])"
    by (simp add: loaded_page_def row_shown_def row7_def row8_def)
  have r: "run (first_load @ [ClickDelete 7]) (mount (Some chrome))
       = Some (loaded_page\<lparr>showDeleteConfirm := Some 7\<rparr>, [])"
    using s1 by (simp add: run_append first_load_run del: step.simps)
  have a7: "armed_rows (loaded_page\<lparr>showDeleteConfirm := Some 7\<rparr>) = [row7]"
    by (simp add: armed_rows_def loaded_page_def row7_def row8_def)
  have f8: "filter (\<lambda>item. id_t item = 8) [row7, row8] = [row8]"
    by (simp add: row7_def row8_def)
  from one_row_armed [OF first_load_keyed first_load_run, where a = 7 and b = 8
      and ?p1.0 = "loaded_page\<lparr>showDeleteConfirm := Some 7\<rparr>" and ?ts1.0 = "[]"
      and ?p2.0 = "loaded_page\<lparr>showDeleteConfirm := Some 8\<rparr>" and ?ts2.0 = "[]"] s1 s2
  have inst: "armed_rows (loaded_page\<lparr>showDeleteConfirm := Some 8\<rparr>)
      = filter (\<lambda>item. id_t item = 8) (savedTranscriptions (loaded_page\<lparr>showDeleteConfirm := Some 8\<rparr>))"
    by blast
  have sv: "savedTranscriptions (loaded_page\<lparr>showDeleteConfirm := Some 8\<rparr>) = [row7, row8]"
    by (simp add: loaded_page_def)
  have a8: "armed_rows (loaded_page\<lparr>showDeleteConfirm := Some 8\<rparr>) = [row8]"
    by (simp only: inst sv f8)
  from one_row_armed [OF k r, where a = 7 and ?p1.0 = loaded_page and ?ts1.0 = "[]"] s3
  have a0: "armed_rows loaded_page = []" by blast
  from k r a7 s1 s2 a8 s3 a0 show ?thesis by blast
qed

section \<open>Requests in flight\<close>

text \<open>
  C9. \<^verbatim>\<open>loadSavedTranscriptions()\<close> is called without \<^verbatim>\<open>await\<close> after a successful insert or
  delete, and the caller's \<^verbatim>\<open>finally\<close> sets \<^verbatim>\<open>isLoading\<close> to false at once, although the
  reload has just set it: the controls are enabled while the reload's probe is in flight.
  With rows 7 and 8 loaded, the user deletes row 7; when that delete has succeeded the reload's
  probe is pending and \<^verbatim>\<open>isLoading\<close> is false; the user arms and confirms row 8, and the
  second delete is issued while the probe is still unanswered: two requests are in flight.
\<close>

theorem reload_overlaps_next_delete:
  "map_option (\<lambda>a. (isLoading (fst a), showDeleteConfirm (fst a), snd a, issued (fst a)))
     (run (first_load @ [ClickDelete 7, ClickConfirm 7, Settle 0 example_date (ok None)])
        (mount (Some chrome)))
     = Some (False, None, [LoadAwaitProbe], [CountProbe, SelectAll, DeleteRow 7, CountProbe])
   \<and> map_option (\<lambda>a. (snd a, in_flight a, issued (fst a)))
     (run (first_load @ [ClickDelete 7, ClickConfirm 7, Settle 0 example_date (ok None),
         ClickDelete 8, ClickConfirm 8]) (mount (Some chrome)))
     = Some ([LoadAwaitProbe, DeleteAwait], 2, [CountProbe, SelectAll, DeleteRow 7, CountProbe, DeleteRow 8])"
  by (simp add: run_append first_load_run loaded_page_def row_shown_def row7_def row8_def
      deleteTranscription_def loadSavedTranscriptions_def block_defs ok_def in_flight_def
      is_network_def issued_def emit_def)

end
